theory Spec2Isabelle
  imports Main "HOL-Library.Word"
begin

section \<open>The reverse proxy of proxyd: data model\<close>

text \<open>
  The Go type \<open>ReverseProxy\<close> holds a map from UID to \<open>*backend.Backend\<close> and a
  second pointer \<open>current\<close> to one of those objects. Both alias the same object, and
  \<open>current\<close> can outlive the map entry, so the objects live in an explicit store
  (\<open>objects\<close>, addressed by position) and the map and \<open>current\<close> hold references.
  \<open>Connections\<close> is a \<open>uint32\<close>.
\<close>

type_synonym uint32 = "32 word"
type_synonym ref = nat

record Backend =
  UID :: string
  Addr :: string
  Connections :: uint32

text \<open>
  \<open>cancelBootstrap\<close> is the cancel function of the context that \<open>Watch\<close> hands to the
  bootstrap tasks. \<open>ctxDone\<close> is the state of that context and \<open>cancelCalls\<close> counts
  the invocations of the cancel function. \<open>endpoints\<close> is a slice that may be nil
  (\<open>None\<close>). The mutex makes each registry operation atomic; it has no field here.
\<close>

record ReverseProxy =
  ConnectTimeout :: int
  objects :: "Backend list"
  current :: "ref option"
  backends :: "string \<rightharpoonup> ref"
  endpoints :: "string list option"
  cancelCalls :: nat
  ctxDone :: bool

definition NewReverseProxy :: "string list option \<Rightarrow> ReverseProxy" where
  "NewReverseProxy eps =
     \<lparr>ConnectTimeout = 100, objects = [], current = None, backends = Map.empty, endpoints = eps,
      cancelCalls = 0, ctxDone = False\<rparr>"

definition MaxUint32 :: uint32 where
  "MaxUint32 = 0xFFFFFFFF"

section \<open>Registry operations\<close>

text \<open>
  Go leaves the order of \<open>range\<close> over a map unspecified. Every operation that reaches
  \<open>setCurrent\<close> takes the order \<open>ks\<close> in which that one loop visits the keys;
  \<open>range_order\<close> says that \<open>ks\<close> visits every key of the map exactly once.
\<close>

definition range_order :: "(string \<rightharpoonup> ref) \<Rightarrow> string list \<Rightarrow> bool" where
  "range_order m ks \<longleftrightarrow> distinct ks \<and> set ks = dom m"

text \<open>The loop of \<open>setCurrent\<close> over the references met, with the locals \<open>least\<close> and \<open>r.current\<close>.\<close>

fun setCurrent_loop :: "Backend list \<Rightarrow> ref list \<Rightarrow> uint32 \<Rightarrow> ref option \<Rightarrow> ref option" where
  "setCurrent_loop h [] least cur = cur"
| "setCurrent_loop h (p # ps) least cur =
     (if Connections (h ! p) = 0 \<or> Connections (h ! p) < least
      then setCurrent_loop h ps (Connections (h ! p)) (Some p)
      else setCurrent_loop h ps least cur)"

definition setCurrent :: "string list \<Rightarrow> ReverseProxy \<Rightarrow> ReverseProxy" where
  "setCurrent ks r =
     r\<lparr>current := setCurrent_loop (objects r) (List.map_filter (backends r) ks) MaxUint32 (current r)\<rparr>"

definition AddBackend :: "string list \<Rightarrow> string \<Rightarrow> string \<Rightarrow> ReverseProxy \<Rightarrow> bool \<times> ReverseProxy" where
  "AddBackend ks uid addr r =
     (case backends r uid of
        Some _ \<Rightarrow> (False, r)
      | None \<Rightarrow>
          (True, setCurrent ks
             (r\<lparr>objects := objects r @ [\<lparr>UID = uid, Addr = addr, Connections = 0\<rparr>],
                backends := (backends r)(uid \<mapsto> length (objects r))\<rparr>)))"

definition DeleteBackend :: "string list \<Rightarrow> string \<Rightarrow> ReverseProxy \<Rightarrow> bool \<times> ReverseProxy" where
  "DeleteBackend ks uid r =
     (case backends r uid of
        Some _ \<Rightarrow> (True, setCurrent ks (r\<lparr>backends := (backends r)(uid := None)\<rparr>))
      | None \<Rightarrow> (False, setCurrent ks r))"

definition GetBackend :: "ReverseProxy \<Rightarrow> ref option" where
  "GetBackend r = current r"

definition IncrementBackend :: "string list \<Rightarrow> string \<Rightarrow> ReverseProxy \<Rightarrow> ReverseProxy" where
  "IncrementBackend ks uid r =
     (case backends r uid of
        None \<Rightarrow> r
      | Some p \<Rightarrow>
          setCurrent ks
            (r\<lparr>objects := (objects r)[p := (objects r ! p)\<lparr>Connections := Connections (objects r ! p) + 1\<rparr>]\<rparr>))"

definition DecrementBackend :: "string list \<Rightarrow> string \<Rightarrow> ReverseProxy \<Rightarrow> ReverseProxy" where
  "DecrementBackend ks uid r =
     (case backends r uid of
        None \<Rightarrow> r
      | Some p \<Rightarrow>
          if Connections (objects r ! p) = 0 then r
          else setCurrent ks
            (r\<lparr>objects := (objects r)[p := (objects r ! p)\<lparr>Connections := Connections (objects r ! p) - 1\<rparr>]\<rparr>))"

text \<open>The count of the backend that the reference \<open>p\<close> points to.\<close>

definition count_of :: "ReverseProxy \<Rightarrow> ref \<Rightarrow> uint32" where
  "count_of r p = Connections (objects r ! p)"

section \<open>Sequences of registry operations\<close>

text \<open>
  A run is a list of operations, each with the order its \<open>setCurrent\<close> loop takes.
  \<open>valid_orders\<close> says that each order enumerates the map as it is when the loop runs
  (the map after the mutation: \<open>setCurrent\<close> does not change it).
\<close>

datatype registry_op = Add string string | Delete string | Increment string | Decrement string

fun apply_op :: "registry_op \<times> string list \<Rightarrow> ReverseProxy \<Rightarrow> ReverseProxy" where
  "apply_op (Add uid addr, ks) r = snd (AddBackend ks uid addr r)"
| "apply_op (Delete uid, ks) r = snd (DeleteBackend ks uid r)"
| "apply_op (Increment uid, ks) r = IncrementBackend ks uid r"
| "apply_op (Decrement uid, ks) r = DecrementBackend ks uid r"

definition run_ops :: "(registry_op \<times> string list) list \<Rightarrow> ReverseProxy \<Rightarrow> ReverseProxy" where
  "run_ops ops r = fold apply_op ops r"

fun valid_orders :: "(registry_op \<times> string list) list \<Rightarrow> ReverseProxy \<Rightarrow> bool" where
  "valid_orders [] r = True"
| "valid_orders (x # xs) r =
     (range_order (backends (apply_op x r)) (snd x) \<and> valid_orders xs (apply_op x r))"

section \<open>Cutover: stopping the bootstrap tasks\<close>

text \<open>
  Go's \<open>context.CancelFunc\<close> cancels the context; a call after the first changes nothing
  in the context. The counter records every call all the same.
\<close>

definition cancelBootstrap :: "ReverseProxy \<Rightarrow> ReverseProxy" where
  "cancelBootstrap r = r\<lparr>cancelCalls := cancelCalls r + 1, ctxDone := True\<rparr>"

definition stopBootstrapBackends :: "ReverseProxy \<Rightarrow> ReverseProxy" where
  "stopBootstrapBackends r =
     (if endpoints r \<noteq> None then (cancelBootstrap r)\<lparr>endpoints := None\<rparr> else r)"

text \<open>
  \<open>stopBootstrapBackends\<close> takes no lock. For callers that run at the same time, the
  function is three steps (the test of \<open>r.endpoints\<close>, the call of the cancel function,
  the assignment of nil), and a schedule names the caller that takes the next step.
\<close>

datatype pc = AtTest | AtCancel | AtClear | Finished

fun stop_step :: "pc \<Rightarrow> ReverseProxy \<Rightarrow> pc \<times> ReverseProxy" where
  "stop_step AtTest r = (if endpoints r \<noteq> None then (AtCancel, r) else (Finished, r))"
| "stop_step AtCancel r = (AtClear, cancelBootstrap r)"
| "stop_step AtClear r = (Finished, r\<lparr>endpoints := None\<rparr>)"
| "stop_step Finished r = (Finished, r)"

definition sched_step :: "nat \<Rightarrow> pc list \<times> ReverseProxy \<Rightarrow> pc list \<times> ReverseProxy" where
  "sched_step t cfg =
     (if t < length (fst cfg)
      then (case stop_step (fst cfg ! t) (snd cfg) of (q, r') \<Rightarrow> ((fst cfg)[t := q], r'))
      else cfg)"

definition run_schedule :: "nat list \<Rightarrow> pc list \<times> ReverseProxy \<Rightarrow> pc list \<times> ReverseProxy" where
  "run_schedule sch cfg = fold sched_step sch cfg"

text \<open>
  The bootstrap tasks see the cancellation as the context's \<open>Done\<close> channel being
  closed, which is the step that takes \<open>ctxDone\<close> from false to true. \<open>deliveries\<close>
  counts those steps along a schedule.
\<close>

fun deliveries :: "nat list \<Rightarrow> pc list \<times> ReverseProxy \<Rightarrow> nat" where
  "deliveries [] cfg = 0"
| "deliveries (t # sch) cfg =
     (if \<not> ctxDone (snd cfg) \<and> ctxDone (snd (sched_step t cfg)) then 1 else 0)
       + deliveries sch (sched_step t cfg)"

text \<open>
  What holds of overlapping callers at every point of a schedule that starts with a
  non-nil endpoint list and \<open>c0\<close> earlier calls of the cancel function: each call made
  belongs to a caller that is past its call, a caller about to clear the list has made
  its call, and the list is nil only after a call and whenever a caller has finished.
\<close>

definition past_cancel :: "pc \<Rightarrow> bool" where
  "past_cancel q \<longleftrightarrow> q = AtClear \<or> q = Finished"

definition stop_inv :: "nat \<Rightarrow> pc list \<times> ReverseProxy \<Rightarrow> bool" where
  "stop_inv c0 cfg \<longleftrightarrow>
     c0 \<le> cancelCalls (snd cfg) \<and>
     cancelCalls (snd cfg) \<le> c0 + length (filter past_cancel (fst cfg)) \<and>
     (AtClear \<in> set (fst cfg) \<or> endpoints (snd cfg) = None \<longrightarrow>
        c0 < cancelCalls (snd cfg) \<and> ctxDone (snd cfg)) \<and>
     (Finished \<in> set (fst cfg) \<longrightarrow> endpoints (snd cfg) = None)"

section \<open>Discovery watcher\<close>

text \<open>
  The fields of \<open>v1.Pod\<close> that the handlers read: \<open>PodUID\<close> is \<open>pod.UID\<close>, \<open>PodIP\<close> is
  \<open>pod.Status.PodIP\<close>, and \<open>ContainerStatuses\<close> lists the \<open>Ready\<close> flag of each entry of
  \<open>pod.Status.ContainerStatuses\<close>. The handlers' log lines are left out.
\<close>

record Pod =
  Name :: string
  PodUID :: string
  Labels :: "string \<rightharpoonup> string"
  PodIP :: string
  ContainerStatuses :: "bool list"

definition isAPIServer :: "Pod \<Rightarrow> bool" where
  "isAPIServer pod =
     (if (case Labels pod ''component'' of Some component \<Rightarrow> component = ''kube-apiserver'' | None \<Rightarrow> False)
      then True
      else if (case Labels pod ''k8s-app'' of Some k8sApp \<Rightarrow> k8sApp = ''self-hosted-kube-apiserver'' | None \<Rightarrow> False)
      then True
      else False)"

text \<open>The loops over the container statuses return at the first status that is not ready.\<close>

fun any_not_ready :: "bool list \<Rightarrow> bool" where
  "any_not_ready [] = False"
| "any_not_ready (ready # statuses) = (if \<not> ready then True else any_not_ready statuses)"

definition AddFunc :: "string list \<Rightarrow> Pod \<Rightarrow> ReverseProxy \<Rightarrow> ReverseProxy" where
  "AddFunc ks pod r =
     (if \<not> isAPIServer pod then r
      else if PodIP pod = [] then r
      else if any_not_ready (ContainerStatuses pod) then r
      else stopBootstrapBackends (snd (AddBackend ks (PodUID pod) (PodIP pod) r)))"

definition UpdateFunc :: "string list \<Rightarrow> Pod \<Rightarrow> Pod \<Rightarrow> ReverseProxy \<Rightarrow> ReverseProxy" where
  "UpdateFunc ks old new r =
     (if \<not> isAPIServer old then r
      else if any_not_ready (ContainerStatuses new) then snd (DeleteBackend ks (PodIP old) r)
      else if PodIP old = [] \<and> PodIP new \<noteq> []
      then stopBootstrapBackends (snd (AddBackend ks (PodUID new) (PodIP new) r))
      else r)"

definition DeleteFunc :: "string list \<Rightarrow> Pod \<Rightarrow> ReverseProxy \<Rightarrow> ReverseProxy" where
  "DeleteFunc ks pod r =
     (if \<not> isAPIServer pod then r else snd (DeleteBackend ks (PodUID pod) r))"

section \<open>Bootstrap prober\<close>

text \<open>\<open>fmt.Sprintf("bootstrap-%d", i)\<close> for an index of \<open>range\<close>, which is not negative.\<close>

definition digit :: "nat \<Rightarrow> char" where
  "digit d = ''0123456789'' ! (d mod 10)"

function decimal :: "nat \<Rightarrow> string" where
  "decimal n = (if n < 10 then [digit n] else decimal (n div 10) @ [digit (n mod 10)])"
  by pat_completeness auto
termination
  by (relation "measure id") auto

declare decimal.simps [simp del]

definition bootstrap_uid :: "nat \<Rightarrow> string" where
  "bootstrap_uid i = ''bootstrap-'' @ decimal i"

text \<open>
  One task of \<open>bootstrap\<close>, for the endpoint \<open>e\<close> at index \<open>i\<close>. Each round of its loop
  is one \<open>select\<close>: the ticker case carries whether the probe connected, and the case of
  \<open>c.Done()\<close> can be taken only once the context is cancelled (before that the \<open>select\<close>
  keeps waiting). After \<open>return\<close> the task takes no further step.
\<close>

datatype select_case = TickerC bool | CtxDone

datatype task_state = Looping | Returned

fun bootstrap_step :: "nat \<Rightarrow> string \<Rightarrow> select_case \<times> string list \<Rightarrow> task_state \<times> ReverseProxy
    \<Rightarrow> task_state \<times> ReverseProxy" where
  "bootstrap_step i e (sc, ks) (Returned, r) = (Returned, r)"
| "bootstrap_step i e (TickerC False, ks) (Looping, r) = (Looping, snd (DeleteBackend ks (bootstrap_uid i) r))"
| "bootstrap_step i e (TickerC True, ks) (Looping, r) = (Looping, snd (AddBackend ks (bootstrap_uid i) e r))"
| "bootstrap_step i e (CtxDone, ks) (Looping, r) =
     (if ctxDone r then (Returned, snd (DeleteBackend ks (bootstrap_uid i) r)) else (Looping, r))"

definition bootstrap_task :: "nat \<Rightarrow> string \<Rightarrow> (select_case \<times> string list) list \<Rightarrow> ReverseProxy
    \<Rightarrow> task_state \<times> ReverseProxy" where
  "bootstrap_task i e evs r = fold (bootstrap_step i e) evs (Looping, r)"

section \<open>Connection proxy\<close>

text \<open>
  A \<open>net.Conn\<close> value is an interface: nil (\<open>None\<close>), a \<open>*net.TCPConn\<close> or another
  implementation. A handler's run is the list of its calls to the network and the log,
  with the registry it leaves; a method call on a nil interface panics.
\<close>

datatype conn = TCPConn nat | OtherConn nat

datatype dial_result = DialError | Dialed "conn option"

datatype io = Log | Close conn | DialTimeout string int | Join conn conn

datatype handler = Panicked "io list" | Completed "io list" ReverseProxy

fun is_dial :: "io \<Rightarrow> bool" where
  "is_dial (DialTimeout a t) = True"
| "is_dial x = False"

definition dial_attempts :: "handler \<Rightarrow> nat" where
  "dial_attempts h = (case h of Panicked tr \<Rightarrow> length (filter is_dial tr) | Completed tr r \<Rightarrow> length (filter is_dial tr))"

text \<open>
  \<open>joinConnections\<close>: the deferred \<open>DecrementBackend\<close> runs on every return; \<open>Join\<close>
  stands for the two copy goroutines and the wait for both.
\<close>

definition joinConnections :: "string list \<Rightarrow> string \<Rightarrow> conn \<Rightarrow> conn \<Rightarrow> ReverseProxy \<Rightarrow> io list \<times> ReverseProxy" where
  "joinConnections ks uid c1 c2 r =
     (case c1 of
        OtherConn _ \<Rightarrow> ([], DecrementBackend ks uid r)
      | TCPConn _ \<Rightarrow>
          (case c2 of
             OtherConn _ \<Rightarrow> ([], DecrementBackend ks uid r)
           | TCPConn _ \<Rightarrow> ([Log, Join c1 c2], DecrementBackend ks uid r)))"

definition proxyConnection :: "string list \<Rightarrow> string list \<Rightarrow> (string \<Rightarrow> int \<Rightarrow> dial_result) \<Rightarrow> conn option
    \<Rightarrow> ReverseProxy \<Rightarrow> handler" where
  "proxyConnection ks1 ks2 dial c1 r =
     (case GetBackend r of
        None \<Rightarrow>
          (case c1 of
             None \<Rightarrow> Panicked []
           | Some c \<Rightarrow> Completed [Log, Close c] r)
      | Some p \<Rightarrow>
          (let uid = UID (objects r ! p);
               addr = Addr (objects r ! p);
               d = DialTimeout (addr @ '':6443'') (ConnectTimeout r)
           in case dial (addr @ '':6443'') (ConnectTimeout r) of
                DialError \<Rightarrow>
                  (case c1 of
                     None \<Rightarrow> Panicked [d, Log]
                   | Some c \<Rightarrow> Completed [d, Log, Close c] r)
              | Dialed c2 \<Rightarrow>
                  (case (c1, c2) of
                     (Some c, Some c') \<Rightarrow>
                       (case joinConnections ks2 uid c c' (IncrementBackend ks1 uid r) of
                          (tr, r') \<Rightarrow> Completed (d # tr) r')
                   | _ \<Rightarrow> Completed [d] r)))"

text \<open>
  \<open>Listen\<close>: \<open>bound\<close> says whether \<open>net.Listen\<close> succeeded. The loop has no exit; over
  the results of the calls of \<open>Accept\<close> so far it has started one handler per entry of
  the list, each with the connection it was given (nil when \<open>Accept\<close> failed).
\<close>

datatype accept_result = Accepted conn | TemporaryError | PermanentError | PlainError

datatype listen_state = ListenReturned | Accepting "conn option list"

fun accept_step :: "accept_result \<Rightarrow> conn option list \<Rightarrow> conn option list" where
  "accept_step (Accepted c) started = started @ [Some c]"
| "accept_step TemporaryError started = started"
| "accept_step PermanentError started = started @ [None]"
| "accept_step PlainError started = started @ [None]"

definition Listen :: "bool \<Rightarrow> accept_result list \<Rightarrow> listen_state" where
  "Listen bound results = (if \<not> bound then ListenReturned else Accepting (fold accept_step results []))"

section \<open>Properties of the registry\<close>

lemma objects_setCurrent: "objects (setCurrent ks r) = objects r"
  by (simp add: setCurrent_def)

lemma backends_setCurrent: "backends (setCurrent ks r) = backends r"
  by (simp add: setCurrent_def)

lemma unat_pred_nonzero: "c \<noteq> 0 \<Longrightarrow> unat (c - 1) = unat c - 1" for c :: uint32
  by (simp add: unat_minus_one)

text \<open>
  C7. \<open>DecrementBackend\<close> never takes a count below zero: for an identifier that is not
  registered, or whose count is zero, it returns the registry as it was, and in every
  other case the count read through any reference does not grow and drops by at most one
  (the \<open>uint32\<close> does not wrap to its maximum).
\<close>

theorem DecrementBackend_never_below_zero:
  "(backends r uid = None \<longrightarrow> DecrementBackend ks uid r = r) \<and>
   (\<forall>p. backends r uid = Some p \<and> count_of r p = 0 \<longrightarrow> DecrementBackend ks uid r = r) \<and>
   (\<forall>q. unat (count_of (DecrementBackend ks uid r) q) \<le> unat (count_of r q) \<and>
        unat (count_of r q) \<le> unat (count_of (DecrementBackend ks uid r) q) + 1)"
proof (intro conjI allI impI)
  assume "backends r uid = None"
  then show "DecrementBackend ks uid r = r"
    by (simp add: DecrementBackend_def)
next
  fix p
  assume "backends r uid = Some p \<and> count_of r p = 0"
  then show "DecrementBackend ks uid r = r"
    by (simp add: DecrementBackend_def count_of_def)
next
  fix q
  show "unat (count_of (DecrementBackend ks uid r) q) \<le> unat (count_of r q)"
  proof (cases "backends r uid")
    case None
    then show ?thesis by (simp add: DecrementBackend_def)
  next
    case (Some p)
    show ?thesis
    proof (cases "q = p \<and> p < length (objects r)")
      case True
      then show ?thesis
        using Some by (simp add: DecrementBackend_def count_of_def objects_setCurrent unat_pred_nonzero)
    next
      case False
      then have "((objects r)[p := b]) ! q = objects r ! q" for b
        by (cases "q = p") (simp_all add: list_update_beyond)
      then show ?thesis
        using Some by (simp add: DecrementBackend_def count_of_def objects_setCurrent)
    qed
  qed
next
  fix q
  show "unat (count_of r q) \<le> unat (count_of (DecrementBackend ks uid r) q) + 1"
  proof (cases "backends r uid")
    case None
    then show ?thesis by (simp add: DecrementBackend_def)
  next
    case (Some p)
    show ?thesis
    proof (cases "q = p \<and> p < length (objects r)")
      case True
      then show ?thesis
        using Some by (auto simp add: DecrementBackend_def count_of_def objects_setCurrent unat_pred_nonzero)
    next
      case False
      then have "((objects r)[p := b]) ! q = objects r ! q" for b
        by (cases "q = p") (simp_all add: list_update_beyond)
      then show ?thesis
        using Some by (simp add: DecrementBackend_def count_of_def objects_setCurrent)
    qed
  qed
qed

theorem DecrementBackend_never_below_zero_witness:
  "backends (snd (AddBackend [''a''] ''a'' ''10.0.0.1'' (NewReverseProxy None))) ''b'' = None \<and>
   DecrementBackend [''a''] ''b'' (snd (AddBackend [''a''] ''a'' ''10.0.0.1'' (NewReverseProxy None)))
     = snd (AddBackend [''a''] ''a'' ''10.0.0.1'' (NewReverseProxy None)) \<and>
   backends (snd (AddBackend [''a''] ''a'' ''10.0.0.1'' (NewReverseProxy None))) ''a'' = Some 0 \<and>
   count_of (snd (AddBackend [''a''] ''a'' ''10.0.0.1'' (NewReverseProxy None))) 0 = 0 \<and>
   DecrementBackend [''a''] ''a'' (snd (AddBackend [''a''] ''a'' ''10.0.0.1'' (NewReverseProxy None)))
     = snd (AddBackend [''a''] ''a'' ''10.0.0.1'' (NewReverseProxy None))"
proof -
  let ?r = "snd (AddBackend [''a''] ''a'' ''10.0.0.1'' (NewReverseProxy None))"
  have b: "backends ?r ''b'' = None"
    by (simp add: AddBackend_def NewReverseProxy_def backends_setCurrent)
  have a: "backends ?r ''a'' = Some 0"
    by (simp add: AddBackend_def NewReverseProxy_def backends_setCurrent)
  have c: "count_of ?r 0 = 0"
    by (simp add: AddBackend_def NewReverseProxy_def count_of_def objects_setCurrent)
  from DecrementBackend_never_below_zero [of ?r "''b''" "[''a'']"] b
  have 1: "DecrementBackend [''a''] ''b'' ?r = ?r" by blast
  from DecrementBackend_never_below_zero [of ?r "''a''" "[''a'']"] a c
  have 2: "DecrementBackend [''a''] ''a'' ?r = ?r" by blast
  from a b c 1 2 show ?thesis by blast
qed

section \<open>The selection computed by \<open>setCurrent\<close>\<close>

lemmas registry_defs = AddBackend_def DeleteBackend_def IncrementBackend_def DecrementBackend_def
  setCurrent_def NewReverseProxy_def GetBackend_def run_ops_def range_order_def
  List.map_filter_simps MaxUint32_def

text \<open>
  C1. The selection is not empty whenever the registry is: \<open>setCurrent\<close> assigns
  \<open>r.current\<close> only inside its loop, so after the last backend is deleted the loop does
  not run and \<open>GetBackend\<close> still returns the deleted backend.
\<close>

theorem GetBackend_stale_after_last_delete:
  "valid_orders [(Add ''a'' ''10.0.0.1'', [''a'']), (Delete ''a'', [])] (NewReverseProxy None) \<and>
   backends (run_ops [(Add ''a'' ''10.0.0.1'', [''a'']), (Delete ''a'', [])] (NewReverseProxy None)) = Map.empty \<and>
   GetBackend (run_ops [(Add ''a'' ''10.0.0.1'', [''a'']), (Delete ''a'', [])] (NewReverseProxy None)) = Some 0 \<and>
   objects (run_ops [(Add ''a'' ''10.0.0.1'', [''a'']), (Delete ''a'', [])] (NewReverseProxy None)) ! 0
     = \<lparr>UID = ''a'', Addr = ''10.0.0.1'', Connections = 0\<rparr>"
  by (simp add: registry_defs)

lemma setCurrent_loop_cases:
  "(setCurrent_loop h ps least cur = cur \<and>
      (\<forall>p\<in>set ps. Connections (h ! p) \<noteq> 0 \<and> least \<le> Connections (h ! p))) \<or>
   (\<exists>q\<in>set ps. setCurrent_loop h ps least cur = Some q \<and> Connections (h ! q) \<le> least \<and>
      (\<forall>p\<in>set ps. Connections (h ! q) \<le> Connections (h ! p)))"
proof (induction ps arbitrary: least cur)
  case Nil
  then show ?case by simp
next
  case (Cons p ps)
  show ?case
  proof (cases "Connections (h ! p) = 0 \<or> Connections (h ! p) < least")
    case True
    then have le: "Connections (h ! p) \<le> least" by auto
    from Cons.IH [of "Connections (h ! p)" "Some p"] True le show ?thesis
      by (auto intro: order_trans)
  next
    case False
    then have "Connections (h ! p) \<noteq> 0" "least \<le> Connections (h ! p)" by auto
    with Cons.IH [of least cur] False show ?thesis
      by (auto intro: order_trans)
  qed
qed

lemma below_MaxUint32:
  assumes "c \<noteq> MaxUint32"
  shows "c < MaxUint32"
proof -
  have "unat c < 2 ^ 32" using unsigned_less [of c, where ?'a = nat] by simp
  moreover have "unat c \<noteq> unat (4294967295 :: uint32)"
    using assms by (simp only: MaxUint32_def word_unat_eq_iff not_False_eq_True)
  ultimately have "unat c < unat (4294967295 :: uint32)" by simp
  then show ?thesis by (simp only: MaxUint32_def word_less_nat_alt)
qed

lemma set_map_filter_range:
  "range_order m ks \<Longrightarrow> set (List.map_filter m ks) = ran m"
  by (force simp: range_order_def List.map_filter_def ran_def dom_def)

text \<open>
  When some registered backend has a count below \<open>MaxUint32\<close>, the loop ends on a
  registered backend of minimum count, whatever the order of the iteration.
\<close>

lemma setCurrent_selects_minimum:
  assumes ord: "range_order (backends r) ks"
    and some: "backends r k = Some p" "count_of r p \<noteq> MaxUint32"
  shows "\<exists>j q. backends r j = Some q \<and> current (setCurrent ks r) = Some q \<and>
           (\<forall>j' q'. backends r j' = Some q' \<longrightarrow> count_of r q \<le> count_of r q')"
proof -
  let ?ps = "List.map_filter (backends r) ks"
  have ps: "set ?ps = ran (backends r)" using ord by (rule set_map_filter_range)
  have pin: "p \<in> set ?ps" using some(1) ps by (auto simp: ran_def)
  have "count_of r p < MaxUint32"
    using some(2) by (rule below_MaxUint32)
  then have "\<not> MaxUint32 \<le> Connections (objects r ! p)"
    by (simp add: count_of_def not_le)
  with pin have "\<not> (\<forall>p\<in>set ?ps. Connections (objects r ! p) \<noteq> 0 \<and> MaxUint32 \<le> Connections (objects r ! p))"
    by blast
  with setCurrent_loop_cases [of "objects r" ?ps MaxUint32 "current r"]
  obtain q where q: "q \<in> set ?ps" "setCurrent_loop (objects r) ?ps MaxUint32 (current r) = Some q"
    "\<forall>p\<in>set ?ps. Connections (objects r ! q) \<le> Connections (objects r ! p)"
    by blast
  from q(1) ps obtain j where "backends r j = Some q" by (auto simp: ran_def)
  moreover have "current (setCurrent ks r) = Some q" using q(2) by (simp add: setCurrent_def)
  moreover have "\<forall>j' q'. backends r j' = Some q' \<longrightarrow> count_of r q \<le> count_of r q'"
    using q(3) ps by (auto simp: ran_def count_of_def)
  ultimately show ?thesis by blast
qed

text \<open>
  C5 as stated fails: two runs of the same two additions, whose loops visit the two
  tied backends in opposite orders, select different backends.
\<close>

theorem tie_break_depends_on_range_order:
  "valid_orders [(Add ''a'' ''10.0.0.1'', [''a'']), (Add ''b'' ''10.0.0.2'', [''a'', ''b''])] (NewReverseProxy None) \<and>
   valid_orders [(Add ''a'' ''10.0.0.1'', [''a'']), (Add ''b'' ''10.0.0.2'', [''b'', ''a''])] (NewReverseProxy None) \<and>
   GetBackend (run_ops [(Add ''a'' ''10.0.0.1'', [''a'']), (Add ''b'' ''10.0.0.2'', [''a'', ''b''])] (NewReverseProxy None))
     \<noteq> GetBackend (run_ops [(Add ''a'' ''10.0.0.1'', [''a'']), (Add ''b'' ''10.0.0.2'', [''b'', ''a''])] (NewReverseProxy None))"
  by (auto simp add: registry_defs)

text \<open>
  C5, amended. The recomputation has no tie-break of its own; the order of the map
  iteration decides among tied backends. For any two iteration orders of the same
  registry in which some count is below \<open>MaxUint32\<close>, both selections are registered
  backends of the same, minimum, count, and they are the same backend whenever only one
  identifier holds that minimum.
\<close>

theorem setCurrent_same_unless_tied:
  assumes "range_order (backends r) ks" and "range_order (backends r) ks'"
    and "backends r k0 = Some p0" and "count_of r p0 \<noteq> MaxUint32"
  shows "\<exists>k p k' p'.
           backends r k = Some p \<and> current (setCurrent ks r) = Some p \<and>
           backends r k' = Some p' \<and> current (setCurrent ks' r) = Some p' \<and>
           count_of r p = count_of r p' \<and>
           (\<forall>j q. backends r j = Some q \<longrightarrow> count_of r p \<le> count_of r q) \<and>
           ((\<forall>j q. backends r j = Some q \<and> j \<noteq> k \<longrightarrow> count_of r q \<noteq> count_of r p) \<longrightarrow> p' = p)"
proof -
  from setCurrent_selects_minimum [OF assms(1) assms(3) assms(4)]
  obtain k p where 1: "backends r k = Some p" "current (setCurrent ks r) = Some p"
    "\<forall>j q. backends r j = Some q \<longrightarrow> count_of r p \<le> count_of r q"
    by blast
  from setCurrent_selects_minimum [OF assms(2) assms(3) assms(4)]
  obtain k' p' where 2: "backends r k' = Some p'" "current (setCurrent ks' r) = Some p'"
    "\<forall>j q. backends r j = Some q \<longrightarrow> count_of r p' \<le> count_of r q"
    by blast
  have eq: "count_of r p = count_of r p'"
    using 1(1) 1(3) 2(1) 2(3) by (meson order_antisym)
  have "p' = p" if u: "\<forall>j q. backends r j = Some q \<and> j \<noteq> k \<longrightarrow> count_of r q \<noteq> count_of r p"
  proof -
    have "k' = k" using u 2(1) eq by metis
    then show ?thesis using 1(1) 2(1) by simp
  qed
  with 1 2 eq show ?thesis by blast
qed

theorem setCurrent_same_unless_tied_witness:
  "let r = run_ops [(Add ''a'' ''10.0.0.1'', [''a'']), (Add ''b'' ''10.0.0.2'', [''a'', ''b'']),
                    (Increment ''a'', [''a'', ''b''])] (NewReverseProxy None)
   in range_order (backends r) [''a'', ''b''] \<and> range_order (backends r) [''b'', ''a''] \<and>
      backends r ''b'' = Some 1 \<and> count_of r 1 \<noteq> MaxUint32 \<and>
      (\<exists>k p k' p'.
           backends r k = Some p \<and> current (setCurrent [''a'', ''b''] r) = Some p \<and>
           backends r k' = Some p' \<and> current (setCurrent [''b'', ''a''] r) = Some p' \<and>
           count_of r p = count_of r p' \<and>
           (\<forall>j q. backends r j = Some q \<longrightarrow> count_of r p \<le> count_of r q) \<and>
           ((\<forall>j q. backends r j = Some q \<and> j \<noteq> k \<longrightarrow> count_of r q \<noteq> count_of r p) \<longrightarrow> p' = p))"
proof -
  let ?r = "run_ops [(Add ''a'' ''10.0.0.1'', [''a'']), (Add ''b'' ''10.0.0.2'', [''a'', ''b'']),
                     (Increment ''a'', [''a'', ''b''])] (NewReverseProxy None)"
  have h1: "range_order (backends ?r) [''a'', ''b'']"
    by (auto simp add: registry_defs)
  have h2: "range_order (backends ?r) [''b'', ''a'']"
    by (auto simp add: registry_defs)
  have h3: "backends ?r ''b'' = Some 1"
    by (simp add: registry_defs)
  have h4: "count_of ?r 1 \<noteq> MaxUint32"
    by (simp add: registry_defs count_of_def)
  from setCurrent_same_unless_tied [OF h1 h2 h3 h4] h1 h2 h3 h4 show ?thesis
    unfolding Let_def by blast
qed

section \<open>The accept loop\<close>

text \<open>
  C3. After an \<open>Accept\<close> error that is not temporary the loop neither returns nor
  skips the dispatch: it starts a handler on the nil connection and accepts again.
\<close>

theorem Listen_dispatches_after_permanent_error:
  "Listen True [PermanentError, Accepted (TCPConn 1)] = Accepting [None, Some (TCPConn 1)]"
  by (simp add: Listen_def)

lemma Listen_never_returns_once_bound: "Listen True results \<noteq> ListenReturned"
  by (simp add: Listen_def)

section \<open>The discovery handlers\<close>

lemma any_not_ready_iff: "any_not_ready statuses \<longleftrightarrow> (\<exists>ready\<in>set statuses. \<not> ready)"
  by (induction statuses) auto

lemma isAPIServer_iff:
  "isAPIServer pod \<longleftrightarrow>
     Labels pod ''component'' = Some ''kube-apiserver'' \<or>
     Labels pod ''k8s-app'' = Some ''self-hosted-kube-apiserver''"
  by (auto simp: isAPIServer_def split: option.splits)

text \<open>
  C2. \<open>UpdateFunc\<close> passes the pod's IP, not its UID, to \<open>DeleteBackend\<close>: a pod that
  \<open>AddFunc\<close> registered under its UID stays registered, and selected, after an update
  that reports a container as not ready.
\<close>

theorem UpdateFunc_keeps_unready_pod_registered:
  "backends (UpdateFunc [''uid-1'']
     \<lparr>Name = ''kube-apiserver-1'', PodUID = ''uid-1'', Labels = [''component'' \<mapsto> ''kube-apiserver''],
      PodIP = ''10.0.0.5'', ContainerStatuses = [True]\<rparr>
     \<lparr>Name = ''kube-apiserver-1'', PodUID = ''uid-1'', Labels = [''component'' \<mapsto> ''kube-apiserver''],
      PodIP = ''10.0.0.5'', ContainerStatuses = [False]\<rparr>
     (AddFunc [''uid-1'']
        \<lparr>Name = ''kube-apiserver-1'', PodUID = ''uid-1'', Labels = [''component'' \<mapsto> ''kube-apiserver''],
         PodIP = ''10.0.0.5'', ContainerStatuses = [True]\<rparr>
        (NewReverseProxy (Some [])))) ''uid-1'' = Some 0"
  by (simp add: registry_defs AddFunc_def UpdateFunc_def isAPIServer_def
      stopBootstrapBackends_def cancelBootstrap_def)

text \<open>
  C10. A pod event whose pod carries neither \<open>component=kube-apiserver\<close> nor
  \<open>k8s-app=self-hosted-kube-apiserver\<close> leaves the whole state as it was: no registry
  operation runs and the cancel function is not called. For an update it is the old
  object of the event whose labels are tested.
\<close>

theorem unlabelled_pod_events_ignored:
  assumes "Labels pod ''component'' \<noteq> Some ''kube-apiserver''"
    and "Labels pod ''k8s-app'' \<noteq> Some ''self-hosted-kube-apiserver''"
  shows "AddFunc ks pod r = r \<and> UpdateFunc ks pod new r = r \<and> DeleteFunc ks pod r = r"
proof -
  have "\<not> isAPIServer pod" using assms by (simp add: isAPIServer_iff)
  then show ?thesis by (simp add: AddFunc_def UpdateFunc_def DeleteFunc_def)
qed

theorem unlabelled_pod_events_ignored_witness:
  "let pod = \<lparr>Name = ''coredns-1'', PodUID = ''uid-7'', Labels = [''k8s-app'' \<mapsto> ''kube-dns''],
               PodIP = ''10.0.0.7'', ContainerStatuses = [True]\<rparr>;
       r = NewReverseProxy (Some [''192.168.0.1''])
   in Labels pod ''component'' \<noteq> Some ''kube-apiserver'' \<and>
      Labels pod ''k8s-app'' \<noteq> Some ''self-hosted-kube-apiserver'' \<and>
      AddFunc [''uid-7''] pod r = r \<and>
      UpdateFunc [] pod (pod\<lparr>ContainerStatuses := [False]\<rparr>) r = r \<and>
      DeleteFunc [] pod r = r"
proof -
  let ?pod = "\<lparr>Name = ''coredns-1'', PodUID = ''uid-7'', Labels = [''k8s-app'' \<mapsto> ''kube-dns''],
               PodIP = ''10.0.0.7'', ContainerStatuses = [True]\<rparr>"
  have h1: "Labels ?pod ''component'' \<noteq> Some ''kube-apiserver''" by simp
  have h2: "Labels ?pod ''k8s-app'' \<noteq> Some ''self-hosted-kube-apiserver''" by simp
  from unlabelled_pod_events_ignored [OF h1 h2] h1 h2 show ?thesis
    unfolding Let_def by blast
qed

lemma backends_stopBootstrapBackends: "backends (stopBootstrapBackends r) = backends r"
  by (simp add: stopBootstrapBackends_def cancelBootstrap_def)

lemma objects_stopBootstrapBackends: "objects (stopBootstrapBackends r) = objects r"
  by (simp add: stopBootstrapBackends_def cancelBootstrap_def)

lemma endpoints_AddBackend: "endpoints (snd (AddBackend ks uid addr r)) = endpoints r"
  by (simp add: AddBackend_def setCurrent_def split: option.splits)

lemma cancelCalls_AddBackend: "cancelCalls (snd (AddBackend ks uid addr r)) = cancelCalls r"
  by (simp add: AddBackend_def setCurrent_def split: option.splits)

lemma AddBackend_fresh:
  "backends r uid = None \<Longrightarrow>
     backends (snd (AddBackend ks uid addr r)) uid = Some (length (objects r)) \<and>
     objects (snd (AddBackend ks uid addr r)) ! length (objects r)
       = \<lparr>UID = uid, Addr = addr, Connections = 0\<rparr>"
  by (simp add: AddBackend_def setCurrent_def)

text \<open>
  C8. For an add event of a pod with one of the API-server labels: with an empty IP or a
  container that is not ready the state is left as it was (no registry operation, no call
  of the cancel function); otherwise the handler is \<open>AddBackend\<close> on the pod's UID and IP
  followed by \<open>stopBootstrapBackends\<close>: a UID not yet registered is registered with the
  pod's IP and count zero, the endpoint list is nil afterwards, and the cancel function
  has been called once if the list was not nil before.
\<close>

theorem AddFunc_registers_ready_pod:
  assumes "isAPIServer pod"
  shows "(PodIP pod = [] \<or> (\<exists>ready\<in>set (ContainerStatuses pod). \<not> ready) \<longrightarrow> AddFunc ks pod r = r) \<and>
         (PodIP pod \<noteq> [] \<and> (\<forall>ready\<in>set (ContainerStatuses pod). ready) \<longrightarrow>
            AddFunc ks pod r = stopBootstrapBackends (snd (AddBackend ks (PodUID pod) (PodIP pod) r)) \<and>
            endpoints (AddFunc ks pod r) = None \<and>
            (endpoints r \<noteq> None \<longrightarrow>
               ctxDone (AddFunc ks pod r) \<and> cancelCalls (AddFunc ks pod r) = cancelCalls r + 1) \<and>
            (backends r (PodUID pod) = None \<longrightarrow>
               backends (AddFunc ks pod r) (PodUID pod) = Some (length (objects r)) \<and>
               objects (AddFunc ks pod r) ! length (objects r)
                 = \<lparr>UID = PodUID pod, Addr = PodIP pod, Connections = 0\<rparr>))"
proof (intro conjI impI)
  assume "PodIP pod = [] \<or> (\<exists>ready\<in>set (ContainerStatuses pod). \<not> ready)"
  then show "AddFunc ks pod r = r"
    by (auto simp: AddFunc_def any_not_ready_iff)
next
  assume ok: "PodIP pod \<noteq> [] \<and> (\<forall>ready\<in>set (ContainerStatuses pod). ready)"
  then have nr: "\<not> any_not_ready (ContainerStatuses pod)" by (auto simp: any_not_ready_iff)
  show eq: "AddFunc ks pod r = stopBootstrapBackends (snd (AddBackend ks (PodUID pod) (PodIP pod) r))"
    using assms ok nr by (simp add: AddFunc_def)
  show "endpoints (AddFunc ks pod r) = None"
    unfolding eq by (simp add: stopBootstrapBackends_def)
  show "ctxDone (AddFunc ks pod r)" if "endpoints r \<noteq> None"
    unfolding eq using that
    by (simp add: stopBootstrapBackends_def cancelBootstrap_def endpoints_AddBackend)
  show "cancelCalls (AddFunc ks pod r) = cancelCalls r + 1" if "endpoints r \<noteq> None"
    unfolding eq using that
    by (simp add: stopBootstrapBackends_def cancelBootstrap_def endpoints_AddBackend cancelCalls_AddBackend)
  show "backends (AddFunc ks pod r) (PodUID pod) = Some (length (objects r))"
    if "backends r (PodUID pod) = None"
    unfolding eq using AddBackend_fresh [OF that] by (simp add: backends_stopBootstrapBackends)
  show "objects (AddFunc ks pod r) ! length (objects r)
          = \<lparr>UID = PodUID pod, Addr = PodIP pod, Connections = 0\<rparr>"
    if "backends r (PodUID pod) = None"
    unfolding eq using AddBackend_fresh [OF that] by (simp add: objects_stopBootstrapBackends)
qed

theorem AddFunc_registers_ready_pod_witness:
  "let pod = \<lparr>Name = ''kube-apiserver-1'', PodUID = ''uid-1'', Labels = [''component'' \<mapsto> ''kube-apiserver''],
               PodIP = ''10.0.0.5'', ContainerStatuses = [True, True]\<rparr>;
       r = NewReverseProxy (Some [''192.168.0.1''])
   in isAPIServer pod \<and> isAPIServer (pod\<lparr>PodIP := []\<rparr>) \<and>
      AddFunc [''uid-1''] (pod\<lparr>PodIP := []\<rparr>) r = r \<and>
      backends (AddFunc [''uid-1''] pod r) ''uid-1'' = Some 0 \<and>
      objects (AddFunc [''uid-1''] pod r) ! 0 = \<lparr>UID = ''uid-1'', Addr = ''10.0.0.5'', Connections = 0\<rparr> \<and>
      endpoints (AddFunc [''uid-1''] pod r) = None \<and>
      ctxDone (AddFunc [''uid-1''] pod r) \<and> cancelCalls (AddFunc [''uid-1''] pod r) = 1"
proof -
  let ?pod = "\<lparr>Name = ''kube-apiserver-1'', PodUID = ''uid-1'', Labels = [''component'' \<mapsto> ''kube-apiserver''],
               PodIP = ''10.0.0.5'', ContainerStatuses = [True, True]\<rparr>"
  let ?r = "NewReverseProxy (Some [''192.168.0.1''])"
  have h: "isAPIServer ?pod" by (simp add: isAPIServer_def)
  have h': "isAPIServer (?pod\<lparr>PodIP := []\<rparr>)" by (simp add: isAPIServer_def)
  have a: "PodIP ?pod \<noteq> [] \<and> (\<forall>ready\<in>set (ContainerStatuses ?pod). ready)" by simp
  have b: "PodIP (?pod\<lparr>PodIP := []\<rparr>) = []" by simp
  have c: "endpoints ?r \<noteq> None" "backends ?r (PodUID ?pod) = None" "cancelCalls ?r = 0"
    "length (objects ?r) = 0" "PodUID ?pod = ''uid-1''" "PodIP ?pod = ''10.0.0.5''"
    by (simp_all add: NewReverseProxy_def)
  from AddFunc_registers_ready_pod [OF h', of "[''uid-1'']" ?r] b
  have 1: "AddFunc [''uid-1''] (?pod\<lparr>PodIP := []\<rparr>) ?r = ?r" by blast
  from AddFunc_registers_ready_pod [OF h, of "[''uid-1'']" ?r] a c(1,2)
  have 3: "backends (AddFunc [''uid-1''] ?pod ?r) (PodUID ?pod) = Some (length (objects ?r))"
    "objects (AddFunc [''uid-1''] ?pod ?r) ! length (objects ?r)
       = \<lparr>UID = PodUID ?pod, Addr = PodIP ?pod, Connections = 0\<rparr>"
    "endpoints (AddFunc [''uid-1''] ?pod ?r) = None"
    "ctxDone (AddFunc [''uid-1''] ?pod ?r)"
    "cancelCalls (AddFunc [''uid-1''] ?pod ?r) = cancelCalls ?r + 1"
    by blast+
  have 2: "backends (AddFunc [''uid-1''] ?pod ?r) ''uid-1'' = Some 0"
    "objects (AddFunc [''uid-1''] ?pod ?r) ! 0 = \<lparr>UID = ''uid-1'', Addr = ''10.0.0.5'', Connections = 0\<rparr>"
    "endpoints (AddFunc [''uid-1''] ?pod ?r) = None"
    "ctxDone (AddFunc [''uid-1''] ?pod ?r)" "cancelCalls (AddFunc [''uid-1''] ?pod ?r) = 1"
    using 3 unfolding c(3,4,5,6) by simp_all
  from h h' 1 2 show ?thesis unfolding Let_def by blast
qed

section \<open>The bootstrap tasks\<close>

lemma DeleteBackend_removes: "backends (snd (DeleteBackend ks uid r)) uid = None"
  by (simp add: DeleteBackend_def setCurrent_def split: option.splits)

lemma AddBackend_registers: "backends (snd (AddBackend ks uid addr r)) uid \<noteq> None"
  by (simp add: AddBackend_def setCurrent_def split: option.splits)

lemma bootstrap_step_Returned:
  "fold (bootstrap_step i e) evs (Returned, r) = (Returned, r)"
  by (induction evs) auto

lemma bootstrap_task_snoc:
  "bootstrap_task i e (evs @ [ev]) r = bootstrap_step i e ev (bootstrap_task i e evs r)"
  by (simp add: bootstrap_task_def)

lemma bootstrap_task_stays_Returned:
  "fst (bootstrap_task i e evs r) = Returned \<Longrightarrow>
     bootstrap_task i e (evs @ evs') r = bootstrap_task i e evs r"
  by (cases "bootstrap_task i e evs r") (simp add: bootstrap_task_def bootstrap_step_Returned)

text \<open>
  C9. The task of the endpoint \<open>e\<close> at index \<open>i\<close> works on the identifier
  \<open>bootstrap-<i>\<close>: a tick whose probe connects is \<open>AddBackend\<close> of that identifier with
  the endpoint, after which it is registered; a tick whose probe fails is
  \<open>DeleteBackend\<close> of it, after which it is not; and once the context is cancelled, taking
  the case of \<open>c.Done()\<close> deletes it and ends the task, which takes no further step.
\<close>

theorem bootstrap_task_probe_and_stop:
  "bootstrap_uid i = ''bootstrap-'' @ decimal i \<and>
   bootstrap_step i e (TickerC True, ks) (Looping, r)
     = (Looping, snd (AddBackend ks (bootstrap_uid i) e r)) \<and>
   backends (snd (bootstrap_step i e (TickerC True, ks) (Looping, r))) (bootstrap_uid i) \<noteq> None \<and>
   (backends r (bootstrap_uid i) = None \<longrightarrow>
      Addr (objects (snd (bootstrap_step i e (TickerC True, ks) (Looping, r))) ! length (objects r)) = e \<and>
      backends (snd (bootstrap_step i e (TickerC True, ks) (Looping, r))) (bootstrap_uid i)
        = Some (length (objects r))) \<and>
   bootstrap_step i e (TickerC False, ks) (Looping, r)
     = (Looping, snd (DeleteBackend ks (bootstrap_uid i) r)) \<and>
   backends (snd (bootstrap_step i e (TickerC False, ks) (Looping, r))) (bootstrap_uid i) = None \<and>
   (ctxDone r \<longrightarrow>
      bootstrap_step i e (CtxDone, ks) (Looping, r)
        = (Returned, snd (DeleteBackend ks (bootstrap_uid i) r)) \<and>
      backends (snd (bootstrap_step i e (CtxDone, ks) (Looping, r))) (bootstrap_uid i) = None \<and>
      (\<forall>evs. fold (bootstrap_step i e) evs (bootstrap_step i e (CtxDone, ks) (Looping, r))
               = bootstrap_step i e (CtxDone, ks) (Looping, r)))"
proof -
  have "bootstrap_uid i = ''bootstrap-'' @ decimal i"
    by (simp add: bootstrap_uid_def)
  moreover have "backends r (bootstrap_uid i) = None \<longrightarrow>
      Addr (objects (snd (AddBackend ks (bootstrap_uid i) e r)) ! length (objects r)) = e \<and>
      backends (snd (AddBackend ks (bootstrap_uid i) e r)) (bootstrap_uid i) = Some (length (objects r))"
    using AddBackend_fresh [of r "bootstrap_uid i" ks e] by simp
  ultimately show ?thesis
    by (simp add: DeleteBackend_removes AddBackend_registers bootstrap_step_Returned)
qed

theorem bootstrap_task_probe_and_stop_witness:
  "let r = cancelBootstrap (NewReverseProxy (Some [''192.168.0.1'', ''192.168.0.2'']))
   in ctxDone r \<and> bootstrap_uid 12 = ''bootstrap-12'' \<and>
      fst (bootstrap_step 12 ''192.168.0.9'' (CtxDone, []) (Looping, r)) = Returned \<and>
      backends (snd (bootstrap_step 12 ''192.168.0.9'' (CtxDone, []) (Looping, r))) ''bootstrap-12'' = None \<and>
      fold (bootstrap_step 12 ''192.168.0.9'') [(TickerC True, [''bootstrap-12''])]
          (bootstrap_step 12 ''192.168.0.9'' (CtxDone, []) (Looping, r))
        = bootstrap_step 12 ''192.168.0.9'' (CtxDone, []) (Looping, r)"
proof -
  let ?r = "cancelBootstrap (NewReverseProxy (Some [''192.168.0.1'', ''192.168.0.2'']))"
  have h: "ctxDone ?r" by (simp add: cancelBootstrap_def)
  have u: "bootstrap_uid 12 = ''bootstrap-12''" by (simp add: bootstrap_uid_def digit_def decimal.simps)
  from bootstrap_task_probe_and_stop [of 12 "''192.168.0.9''" "[]" ?r] h
  have 1: "bootstrap_step 12 ''192.168.0.9'' (CtxDone, []) (Looping, ?r)
             = (Returned, snd (DeleteBackend [] (bootstrap_uid 12) ?r))"
    and 2: "backends (snd (bootstrap_step 12 ''192.168.0.9'' (CtxDone, []) (Looping, ?r))) (bootstrap_uid 12) = None"
    and 3: "\<forall>evs. fold (bootstrap_step 12 ''192.168.0.9'') evs
                    (bootstrap_step 12 ''192.168.0.9'' (CtxDone, []) (Looping, ?r))
                  = bootstrap_step 12 ''192.168.0.9'' (CtxDone, []) (Looping, ?r)"
    by blast+
  have 4: "fst (bootstrap_step 12 ''192.168.0.9'' (CtxDone, []) (Looping, ?r)) = Returned"
    unfolding 1 by simp
  from h u 4 2 [unfolded u] 3 show ?thesis unfolding Let_def by blast
qed

section \<open>The connection handler\<close>

text \<open>
  With a client connection \<open>c\<close>: when \<open>GetBackend\<close> returns nil the handler logs,
  closes \<open>c\<close> and returns without any dial; when the dial of the selected backend fails it
  logs, closes \<open>c\<close> and returns after that one dial. In both cases the registry is left
  as it was. A registry to which nothing was ever added is such a case of no backend.
\<close>

lemma proxyConnection_nil_or_failed_dial:
  "(GetBackend r = None \<longrightarrow>
      proxyConnection ks1 ks2 dial (Some c) r = Completed [Log, Close c] r \<and>
      dial_attempts (proxyConnection ks1 ks2 dial (Some c) r) = 0) \<and>
   (\<forall>p. GetBackend r = Some p \<and> dial (Addr (objects r ! p) @ '':6443'') (ConnectTimeout r) = DialError \<longrightarrow>
      proxyConnection ks1 ks2 dial (Some c) r
        = Completed [DialTimeout (Addr (objects r ! p) @ '':6443'') (ConnectTimeout r), Log, Close c] r \<and>
      dial_attempts (proxyConnection ks1 ks2 dial (Some c) r) = 1) \<and>
   proxyConnection ks1 ks2 dial (Some c) (NewReverseProxy eps)
     = Completed [Log, Close c] (NewReverseProxy eps)"
  by (simp add: proxyConnection_def dial_attempts_def Let_def GetBackend_def NewReverseProxy_def)

text \<open>
  C6. On a registry that \<open>DeleteBackend\<close> has emptied the handler does not find nil:
  \<open>GetBackend\<close> returns the deleted backend, and the handler dials its address. When
  that dial succeeds the client is joined to the deleted backend and is not closed; when
  it fails the client is closed after one dial attempt, not after none.
\<close>

theorem proxyConnection_dials_after_registry_emptied:
  "valid_orders [(Add ''a'' ''10.0.0.1'', [''a'']), (Delete ''a'', [])] (NewReverseProxy None) \<and>
   backends (run_ops [(Add ''a'' ''10.0.0.1'', [''a'']), (Delete ''a'', [])] (NewReverseProxy None)) = Map.empty \<and>
   proxyConnection [] [] (\<lambda>a t. Dialed (Some (TCPConn 9))) (Some (TCPConn 1))
       (run_ops [(Add ''a'' ''10.0.0.1'', [''a'']), (Delete ''a'', [])] (NewReverseProxy None))
     = Completed [DialTimeout ''10.0.0.1:6443'' 100, Log, Join (TCPConn 1) (TCPConn 9)]
         (run_ops [(Add ''a'' ''10.0.0.1'', [''a'']), (Delete ''a'', [])] (NewReverseProxy None)) \<and>
   dial_attempts (proxyConnection [] [] (\<lambda>a t. Dialed (Some (TCPConn 9))) (Some (TCPConn 1))
       (run_ops [(Add ''a'' ''10.0.0.1'', [''a'']), (Delete ''a'', [])] (NewReverseProxy None))) = 1 \<and>
   proxyConnection [] [] (\<lambda>a t. DialError) (Some (TCPConn 1))
       (run_ops [(Add ''a'' ''10.0.0.1'', [''a'']), (Delete ''a'', [])] (NewReverseProxy None))
     = Completed [DialTimeout ''10.0.0.1:6443'' 100, Log, Close (TCPConn 1)]
         (run_ops [(Add ''a'' ''10.0.0.1'', [''a'']), (Delete ''a'', [])] (NewReverseProxy None)) \<and>
   dial_attempts (proxyConnection [] [] (\<lambda>a t. DialError) (Some (TCPConn 1))
       (run_ops [(Add ''a'' ''10.0.0.1'', [''a'']), (Delete ''a'', [])] (NewReverseProxy None))) = 1"
  by (simp add: registry_defs proxyConnection_def joinConnections_def dial_attempts_def)

section \<open>The cutover\<close>

lemma length_filter_update:
  "t < length xs \<Longrightarrow>
     length (filter P (xs[t := q])) + (if P (xs ! t) then 1 else 0)
       = length (filter P xs) + (if P q then 1 else 0)"
proof (induction xs arbitrary: t)
  case Nil
  then show ?case by simp
next
  case (Cons x xs)
  then show ?case by (cases t) auto
qed

lemma in_set_update:
  "t < length xs \<Longrightarrow> x \<in> set (xs[t := q]) \<Longrightarrow> x = q \<or> x \<in> set xs"
  using set_update_subset_insert [of xs t q] by auto

lemma stop_inv_step:
  assumes inv: "stop_inv c0 cfg"
  shows "stop_inv c0 (sched_step t cfg)"
proof (cases "t < length (fst cfg)")
  case False
  then show ?thesis using inv by (simp add: sched_step_def)
next
  case True
  obtain pcs r where cfg: "cfg = (pcs, r)" by (cases cfg)
  from True cfg have t: "t < length pcs" by simp
  then have mem: "pcs ! t \<in> set pcs" by simp
  note cnt = length_filter_update [OF t, of past_cancel]
  note sub = in_set_update [OF t]
  show ?thesis
  proof (cases "pcs ! t")
    case AtTest
    show ?thesis
    proof (cases "endpoints r = None")
      case True
      with AtTest inv cfg t cnt [of Finished] sub [of AtClear Finished] show ?thesis
        by (auto simp: sched_step_def stop_inv_def past_cancel_def)
    next
      case False
      with AtTest inv cfg t cnt [of AtCancel] sub [of AtClear AtCancel] sub [of Finished AtCancel]
      show ?thesis
        by (auto simp: sched_step_def stop_inv_def past_cancel_def)
    qed
  next
    case AtCancel
    with inv cfg t cnt [of AtClear] sub [of Finished AtClear] show ?thesis
      by (auto simp: sched_step_def stop_inv_def past_cancel_def cancelBootstrap_def)
  next
    case AtClear
    with inv cfg t mem cnt [of Finished] show ?thesis
      by (auto simp: sched_step_def stop_inv_def past_cancel_def)
  next
    case Finished
    with inv cfg t have "sched_step t cfg = cfg"
      by (simp add: sched_step_def list_update_same_conv)
    with inv show ?thesis by simp
  qed
qed

lemma stop_inv_run: "stop_inv c0 cfg \<Longrightarrow> stop_inv c0 (run_schedule sch cfg)"
proof (induction sch arbitrary: cfg)
  case Nil
  then show ?case by (simp add: run_schedule_def)
next
  case (Cons t sch)
  from Cons.IH [OF stop_inv_step [OF Cons.prems, of t]] show ?case
    by (simp add: run_schedule_def)
qed

lemma stop_inv_init:
  "endpoints r \<noteq> None \<Longrightarrow> stop_inv (cancelCalls r) (replicate n AtTest, r)"
  by (simp add: stop_inv_def past_cancel_def)

lemma length_sched_step: "length (fst (sched_step t cfg)) = length (fst cfg)"
  by (simp add: sched_step_def split: prod.splits)

lemma length_run_schedule: "length (fst (run_schedule sch cfg)) = length (fst cfg)"
proof (induction sch arbitrary: cfg)
  case Nil
  then show ?case by (simp add: run_schedule_def)
next
  case (Cons t sch)
  from Cons.IH [of "sched_step t cfg"] show ?case
    by (simp add: run_schedule_def length_sched_step)
qed

lemma stopBootstrapBackends_idem:
  "stopBootstrapBackends (stopBootstrapBackends r) = stopBootstrapBackends r"
  by (simp add: stopBootstrapBackends_def cancelBootstrap_def)

lemma stopBootstrapBackends_funpow:
  "(stopBootstrapBackends ^^ Suc n) r = stopBootstrapBackends r"
  by (induction n) (simp_all add: stopBootstrapBackends_idem)

lemma one_caller_alone:
  "run_schedule [0, 0, 0] ([AtTest], r) = ([Finished], stopBootstrapBackends r)"
  by (simp add: run_schedule_def sched_step_def stopBootstrapBackends_def)

lemma sched_step_after_cutover:
  assumes "endpoints (snd cfg) = None" and "set (fst cfg) \<subseteq> {AtTest, Finished}"
  shows "snd (sched_step t cfg) = snd cfg \<and> set (fst (sched_step t cfg)) \<subseteq> {AtTest, Finished}"
proof (cases "t < length (fst cfg)")
  case False
  then show ?thesis using assms by (simp add: sched_step_def)
next
  case True
  then have "fst cfg ! t \<in> set (fst cfg)" by simp
  with assms(2) have "fst cfg ! t = AtTest \<or> fst cfg ! t = Finished" by auto
  then show ?thesis
    using assms True set_update_subset_insert [of "fst cfg" t Finished]
    by (auto simp: sched_step_def)
qed

lemma run_schedule_after_cutover:
  "endpoints (snd cfg) = None \<Longrightarrow> set (fst cfg) \<subseteq> {AtTest, Finished} \<Longrightarrow>
     snd (run_schedule sch cfg) = snd cfg"
proof (induction sch arbitrary: cfg)
  case Nil
  then show ?case by (simp add: run_schedule_def)
next
  case (Cons t sch)
  from sched_step_after_cutover [OF Cons.prems, of t]
  have s: "snd (sched_step t cfg) = snd cfg" "set (fst (sched_step t cfg)) \<subseteq> {AtTest, Finished}"
    by simp_all
  from Cons.IH [of "sched_step t cfg"] s Cons.prems(1) show ?case
    by (simp add: run_schedule_def)
qed

lemma ctxDone_sched_step: "ctxDone (snd cfg) \<Longrightarrow> ctxDone (snd (sched_step t cfg))"
proof (cases "t < length (fst cfg)")
  case False
  assume "ctxDone (snd cfg)"
  with False show ?thesis by (simp add: sched_step_def)
next
  case True
  assume "ctxDone (snd cfg)"
  with True show ?thesis
    by (cases "fst cfg ! t") (simp_all add: sched_step_def cancelBootstrap_def)
qed

lemma ctxDone_run_schedule: "ctxDone (snd cfg) \<Longrightarrow> ctxDone (snd (run_schedule sch cfg))"
proof (induction sch arbitrary: cfg)
  case Nil
  then show ?case by (simp add: run_schedule_def)
next
  case (Cons t sch)
  from Cons.IH [OF ctxDone_sched_step [OF Cons.prems, of t]] show ?case
    by (simp add: run_schedule_def)
qed

lemma deliveries_eq:
  "deliveries sch cfg = (if \<not> ctxDone (snd cfg) \<and> ctxDone (snd (run_schedule sch cfg)) then 1 else 0)"
proof (induction sch arbitrary: cfg)
  case Nil
  then show ?case by (simp add: run_schedule_def)
next
  case (Cons t sch)
  have run: "run_schedule (t # sch) cfg = run_schedule sch (sched_step t cfg)"
    by (simp add: run_schedule_def)
  show ?case
  proof (cases "ctxDone (snd cfg)")
    case True
    then have "ctxDone (snd (sched_step t cfg))" by (rule ctxDone_sched_step)
    with True Cons.IH [of "sched_step t cfg"] show ?thesis by simp
  next
    case False
    show ?thesis
    proof (cases "ctxDone (snd (sched_step t cfg))")
      case True
      then have "ctxDone (snd (run_schedule sch (sched_step t cfg)))" by (rule ctxDone_run_schedule)
      with True False Cons.IH [of "sched_step t cfg"] run show ?thesis by simp
    next
      case F: False
      with False Cons.IH [of "sched_step t cfg"] run show ?thesis by simp
    qed
  qed
qed

lemma sched_step_frame:
  "(snd (sched_step t cfg))\<lparr>endpoints := e, ctxDone := d, cancelCalls := c\<rparr>
     = (snd cfg)\<lparr>endpoints := e, ctxDone := d, cancelCalls := c\<rparr>"
proof (cases "t < length (fst cfg)")
  case False
  then show ?thesis by (simp add: sched_step_def)
next
  case True
  then show ?thesis
    by (cases "fst cfg ! t") (simp_all add: sched_step_def cancelBootstrap_def)
qed

lemma run_schedule_frame:
  "(snd (run_schedule sch cfg))\<lparr>endpoints := e, ctxDone := d, cancelCalls := c\<rparr>
     = (snd cfg)\<lparr>endpoints := e, ctxDone := d, cancelCalls := c\<rparr>"
proof (induction sch arbitrary: cfg)
  case Nil
  then show ?case by (simp add: run_schedule_def)
next
  case (Cons t sch)
  from Cons.IH [where cfg = "sched_step t cfg"] sched_step_frame [where t = t and cfg = cfg and e = e and d = d and c = c] show ?case
    by (simp add: run_schedule_def)
qed

lemma overlapped_state_is_one_firing:
  assumes e: "endpoints r \<noteq> None"
    and f: "Finished \<in> set (fst (run_schedule sch (replicate n AtTest, r)))"
  shows "(snd (run_schedule sch (replicate n AtTest, r)))\<lparr>cancelCalls := c\<rparr>
           = (stopBootstrapBackends r)\<lparr>cancelCalls := c\<rparr>"
    and "ctxDone (snd (run_schedule sch (replicate n AtTest, r)))"
proof -
  let ?r' = "snd (run_schedule sch (replicate n AtTest, r))"
  have inv: "stop_inv (cancelCalls r) (run_schedule sch (replicate n AtTest, r))"
    using stop_inv_run [OF stop_inv_init [OF e]] .
  with f have n: "endpoints ?r' = None" and d: "ctxDone ?r'"
    by (auto simp: stop_inv_def)
  have "?r'\<lparr>cancelCalls := c\<rparr> = ?r'\<lparr>endpoints := None, ctxDone := True, cancelCalls := c\<rparr>"
    using n d by (cases ?r') simp
  also have "\<dots> = r\<lparr>endpoints := None, ctxDone := True, cancelCalls := c\<rparr>"
    using run_schedule_frame [where sch = sch and cfg = "(replicate n AtTest, r)" and e = None and d = True and c = c] by simp
  also have "\<dots> = (stopBootstrapBackends r)\<lparr>cancelCalls := c\<rparr>"
    using e by (simp add: stopBootstrapBackends_def cancelBootstrap_def)
  finally show "?r'\<lparr>cancelCalls := c\<rparr> = (stopBootstrapBackends r)\<lparr>cancelCalls := c\<rparr>" .
  show "ctxDone ?r'" by (rule d)
qed

text \<open>
  Two callers that both pass the test of \<open>r.endpoints\<close> before either clears it both
  call the cancel function. The second call finds the context cancelled: the state
  differs from that of one firing in the count of calls only.
\<close>

lemma overlapping_callers_both_call_cancel:
  "run_schedule [0, 1, 0, 1, 0, 1] ([AtTest, AtTest], NewReverseProxy (Some [''192.168.0.1'']))
     = ([Finished, Finished],
        (NewReverseProxy (Some [''192.168.0.1'']))\<lparr>endpoints := None, cancelCalls := 2, ctxDone := True\<rparr>)"
  by (simp add: run_schedule_def sched_step_def cancelBootstrap_def NewReverseProxy_def)

text \<open>
  C4. Firing more than once has no additional effect. One after another, any number of
  firings is one firing: the first firing on a non-nil endpoint list calls the cancel
  function once, cancels the context and sets the list to nil, and a firing on a nil list
  leaves the state as it is (a single caller's three steps are that function). For
  firings that overlap, under every schedule of \<open>n\<close> callers: callers that start once the
  list is nil change nothing; the \<open>Done\<close> channel is closed at most once; and from a
  non-nil list, as soon as one caller has finished, the state is that of one firing in
  everything but the count of calls of the cancel function, and the channel has been
  closed exactly once if the context was not cancelled before.
\<close>

theorem stopBootstrapBackends_fires_once:
  "stopBootstrapBackends (stopBootstrapBackends r) = stopBootstrapBackends r \<and>
   (stopBootstrapBackends ^^ Suc n) r = stopBootstrapBackends r \<and>
   (endpoints r \<noteq> None \<longrightarrow>
      cancelCalls (stopBootstrapBackends r) = cancelCalls r + 1 \<and>
      ctxDone (stopBootstrapBackends r) \<and> endpoints (stopBootstrapBackends r) = None) \<and>
   (endpoints r = None \<longrightarrow> stopBootstrapBackends r = r) \<and>
   run_schedule [0, 0, 0] ([AtTest], r) = ([Finished], stopBootstrapBackends r) \<and>
   (endpoints r = None \<longrightarrow> snd (run_schedule sch (replicate n AtTest, r)) = r) \<and>
   deliveries sch (replicate n AtTest, r) \<le> 1 \<and>
   (endpoints r \<noteq> None \<and> Finished \<in> set (fst (run_schedule sch (replicate n AtTest, r))) \<longrightarrow>
      (snd (run_schedule sch (replicate n AtTest, r)))\<lparr>cancelCalls := c\<rparr>
        = (stopBootstrapBackends r)\<lparr>cancelCalls := c\<rparr> \<and>
      (\<not> ctxDone r \<longrightarrow> deliveries sch (replicate n AtTest, r) = 1))"
proof -
  have a: "endpoints r = None \<longrightarrow> snd (run_schedule sch (replicate n AtTest, r)) = r"
  proof
    assume e: "endpoints r = None"
    have "set (replicate n AtTest) \<subseteq> {AtTest, Finished}" by (cases n) auto
    with e run_schedule_after_cutover [of "(replicate n AtTest, r)" sch]
    show "snd (run_schedule sch (replicate n AtTest, r)) = r" by simp
  qed
  have b: "endpoints r \<noteq> None \<and> Finished \<in> set (fst (run_schedule sch (replicate n AtTest, r))) \<longrightarrow>
      (snd (run_schedule sch (replicate n AtTest, r)))\<lparr>cancelCalls := c\<rparr>
        = (stopBootstrapBackends r)\<lparr>cancelCalls := c\<rparr> \<and>
      (\<not> ctxDone r \<longrightarrow> deliveries sch (replicate n AtTest, r) = 1)"
  proof (intro impI conjI)
    assume h: "endpoints r \<noteq> None \<and> Finished \<in> set (fst (run_schedule sch (replicate n AtTest, r)))"
    then have e: "endpoints r \<noteq> None"
      and f: "Finished \<in> set (fst (run_schedule sch (replicate n AtTest, r)))" by simp_all
    show "(snd (run_schedule sch (replicate n AtTest, r)))\<lparr>cancelCalls := c\<rparr>
            = (stopBootstrapBackends r)\<lparr>cancelCalls := c\<rparr>"
      by (rule overlapped_state_is_one_firing(1) [OF e f])
    assume "\<not> ctxDone r"
    with overlapped_state_is_one_firing(2) [OF e f]
    show "deliveries sch (replicate n AtTest, r) = 1"
      by (simp add: deliveries_eq)
  qed
  have c: "endpoints r \<noteq> None \<longrightarrow>
      cancelCalls (stopBootstrapBackends r) = cancelCalls r + 1 \<and>
      ctxDone (stopBootstrapBackends r) \<and> endpoints (stopBootstrapBackends r) = None"
    by (simp add: stopBootstrapBackends_def cancelBootstrap_def)
  have d: "endpoints r = None \<longrightarrow> stopBootstrapBackends r = r"
    by (simp add: stopBootstrapBackends_def)
  have l: "deliveries sch (replicate n AtTest, r) \<le> 1"
    by (simp add: deliveries_eq)
  from a b c d l stopBootstrapBackends_idem [of r] stopBootstrapBackends_funpow [of n r]
    one_caller_alone [of r]
  show ?thesis by blast
qed

theorem stopBootstrapBackends_fires_once_witness:
  "let r = NewReverseProxy (Some [''192.168.0.1'']); q = NewReverseProxy None;
       sch = [0, 1, 0, 1, 0, 1]
   in endpoints r \<noteq> None \<and> \<not> ctxDone r \<and> endpoints q = None \<and>
      cancelCalls (stopBootstrapBackends r) = 1 \<and>
      stopBootstrapBackends q = q \<and>
      snd (run_schedule sch (replicate 2 AtTest, q)) = q \<and>
      Finished \<in> set (fst (run_schedule sch (replicate 2 AtTest, r))) \<and>
      (snd (run_schedule sch (replicate 2 AtTest, r)))\<lparr>cancelCalls := 1\<rparr> = stopBootstrapBackends r \<and>
      deliveries sch (replicate 2 AtTest, r) = 1"
proof -
  let ?r = "NewReverseProxy (Some [''192.168.0.1''])"
  let ?q = "NewReverseProxy None"
  let ?sch = "[0, 1, 0, 1, 0, 1] :: nat list"
  have h: "endpoints ?r \<noteq> None" "\<not> ctxDone ?r" by (simp_all add: NewReverseProxy_def)
  have k: "cancelCalls ?r = 0" by (simp add: NewReverseProxy_def)
  have hq: "endpoints ?q = None" by (simp add: NewReverseProxy_def)
  have two: "replicate 2 AtTest = [AtTest, AtTest]" by (simp add: numeral_2_eq_2)
  have f: "Finished \<in> set (fst (run_schedule ?sch (replicate 2 AtTest, ?r)))"
    unfolding two
    by (simp add: run_schedule_def sched_step_def cancelBootstrap_def NewReverseProxy_def)
  from stopBootstrapBackends_fires_once [of ?r 2 ?sch 1] h f
  have 1: "cancelCalls (stopBootstrapBackends ?r) = cancelCalls ?r + 1"
    "(snd (run_schedule ?sch (replicate 2 AtTest, ?r)))\<lparr>cancelCalls := 1\<rparr>
       = (stopBootstrapBackends ?r)\<lparr>cancelCalls := 1\<rparr>"
    "deliveries ?sch (replicate 2 AtTest, ?r) = 1"
    by blast+
  have 3: "(stopBootstrapBackends ?r)\<lparr>cancelCalls := 1\<rparr> = stopBootstrapBackends ?r"
    using 1(1) k by (cases "stopBootstrapBackends ?r") simp
  from stopBootstrapBackends_fires_once [of ?q 2 ?sch 1] hq
  have 2: "stopBootstrapBackends ?q = ?q"
    "snd (run_schedule ?sch (replicate 2 AtTest, ?q)) = ?q"
    by blast+
  from h hq f 1 [unfolded k] 2 3 show ?thesis unfolding Let_def by simp
qed

end
